theory Spec2Isabelle
  imports Main "HOL-Library.AList" "HOL-Library.Multiset"
begin

section \<open>JavaScript values\<close>

text \<open>
  The module is dynamically typed: the caller's parameters, the tree the XML parser
  returns and what the caller asks for are JavaScript values. Only the kinds of value
  that reach this code are modelled. An object \<open>JObj\<close> is an ordinary object, given by
  its list of own properties; the property names read from such objects by this module
  (\<open>envelope\<close>, \<open>body\<close>, ..., \<open>name\<close>, \<open>value\<close>, \<open>ExternalEwsUrl\<close>) are inherited from no
  prototype, so they are own properties wherever they exist. A string is a list of
  UTF-16 code units below 256 (the characters U+0000 to U+00FF), one \<open>char\<close> each.
\<close>

datatype jsval =
    JUndefined
  | JNull
  | JBool bool
  | JStr string
  | JArr "jsval list"
  | JObj "(string \<times> jsval) list"

text \<open>
  Failures. The source defines no error classes of its own; the constructors carry the
  names of the specification's taxonomy, each standing for the JavaScript failure noted.
\<close>

datatype error =
    InvalidInputError                     \<comment> \<open>in the taxonomy; raised nowhere in the source\<close>
  | DnsLookupError string                 \<comment> \<open>rejection of \<open>dns.resolve\<close>\<close>
  | TransportError string                 \<comment> \<open>rejection of \<open>request-promise\<close>\<close>
  | NotRedirectError                      \<comment> \<open>\<open>throw new Error()\<close> on a status other than 302\<close>
  | AllEndpointsFailedError "error list"  \<comment> \<open>the aggregate rejection of \<open>Promise.any\<close>\<close>
  | ParseError string                     \<comment> \<open>rejection of \<open>xml2js.parseString\<close>\<close>
  | MalformedResponseError                \<comment> \<open>TypeError: property read of undefined or null\<close>
  | RangeError                            \<comment> \<open>rejection of \<open>Promise.any\<close> on an empty array\<close>

text \<open>Truthiness, and \<open>a || b\<close>.\<close>

fun truthy :: "jsval \<Rightarrow> bool" where
  "truthy JUndefined = False"
| "truthy JNull = False"
| "truthy (JBool b) = b"
| "truthy (JStr s) = (s \<noteq> [])"
| "truthy (JArr xs) = True"
| "truthy (JObj kvs) = True"

definition js_or :: "jsval \<Rightarrow> jsval \<Rightarrow> jsval" where
  "js_or a b = (if truthy a then a else b)"

text \<open>\<open>xs.join(sep)\<close> on an array of strings.\<close>

fun join :: "string \<Rightarrow> string list \<Rightarrow> string" where
  "join sep [] = []"
| "join sep [x] = x"
| "join sep (x # y # ys) = x @ sep @ join sep (y # ys)"

text \<open>
  String conversion, as a template literal and a computed property name perform it.
  An array joins its elements with a comma, undefined and null elements as empty strings.
\<close>

fun toString :: "jsval \<Rightarrow> string" where
  "toString JUndefined = ''undefined''"
| "toString JNull = ''null''"
| "toString (JBool b) = (if b then ''true'' else ''false'')"
| "toString (JStr s) = s"
| "toString (JArr xs) =
     join '','' (map (\<lambda>x. if x = JUndefined \<or> x = JNull then [] else toString x) xs)"
| "toString (JObj kvs) = ''[object Object]''"

text \<open>\<open>[].concat(v)\<close>: an array is spread, any other value becomes the single element.\<close>

fun array_concat :: "jsval \<Rightarrow> jsval list" where
  "array_concat (JArr xs) = xs"
| "array_concat v = [v]"

text \<open>
  Property read \<open>v.p\<close>: a TypeError on undefined and null; on an object the own property
  or undefined; on a string, a boolean or an array undefined (for the names read here).
\<close>

fun lookupProp :: "jsval \<Rightarrow> string \<Rightarrow> jsval" where
  "lookupProp (JObj kvs) p = (case map_of kvs p of None \<Rightarrow> JUndefined | Some v \<Rightarrow> v)"
| "lookupProp v p = JUndefined"

definition getProp :: "jsval \<Rightarrow> string \<Rightarrow> error + jsval" where
  "getProp v p =
     (if v = JUndefined \<or> v = JNull then Inl MalformedResponseError else Inr (lookupProp v p))"

text \<open>String primitives used by the module.\<close>

fun split_js :: "char \<Rightarrow> string \<Rightarrow> string list" where
  "split_js c [] = [[]]"
| "split_js c (x # xs) =
     (if x = c then [] # split_js c xs
      else (case split_js c xs of [] \<Rightarrow> [[x]] | y # ys \<Rightarrow> (x # y) # ys))"

text \<open>
  \<open>toLowerCase\<close> on the code units below 256: the upper-case letters are A to Z
  (65 to 90) and, in the Latin-1 block, U+00C0 to U+00D6 and U+00D8 to U+00DE (192 to
  214, 216 to 222; 215 is the multiplication sign); each has its lower-case letter 32
  places on. No other code unit below 256 is changed, and none is mapped to several.
\<close>

definition lower_char :: "char \<Rightarrow> char" where
  "lower_char c =
     (let n = (of_char c :: nat)
      in if (65 \<le> n \<and> n \<le> 90) \<or> (192 \<le> n \<and> n \<le> 214) \<or> (216 \<le> n \<and> n \<le> 222)
         then char_of (n + 32) else c)"

definition toLowerCase :: "string \<Rightarrow> string" where
  "toLowerCase s = map lower_char s"

definition charAt :: "string \<Rightarrow> nat \<Rightarrow> string" where
  "charAt s i = (if i < length s then [s ! i] else [])"

definition slice :: "string \<Rightarrow> nat \<Rightarrow> string" where
  "slice s i = drop i s"

fun indexOf :: "string \<Rightarrow> char \<Rightarrow> int" where
  "indexOf [] c = -1"
| "indexOf (x # xs) c =
     (if x = c then 0 else (let i = indexOf xs c in if i < 0 then -1 else i + 1))"

definition substr :: "string \<Rightarrow> int \<Rightarrow> string" where
  "substr s start =
     (if start < 0 then drop (nat (max 0 (int (length s) + start))) s else drop (nat start) s)"

section \<open>The XML normalizer's name processor\<close>

text \<open>
  \<open>removePrefix\<close> (lib/index.js, lines 16-20). \<open>splitString[1]\<close> is undefined when the
  name has no colon and the empty string when nothing lies between the first colon and
  the next; both are falsy, so \<open>||\<close> then yields \<open>splitString[0]\<close>.
\<close>

definition removePrefix :: "string \<Rightarrow> string" where
  "removePrefix string =
     (let splitString = split_js CHR '':'' string;
          withoutPrefix =
            (if 1 < length splitString \<and> splitString ! 1 \<noteq> [] then splitString ! 1
             else splitString ! 0)
      in toLowerCase (charAt withoutPrefix 0) @ slice withoutPrefix 1)"

section \<open>The SOAP request builder\<close>

definition EWS_URL_SETTING :: string where
  "EWS_URL_SETTING = ''ExternalEwsUrl''"

text \<open>
  \<open>wrapSettingsRequest\<close> (lines 75-82). \<open>indexOf\<close> compares with strict equality, so only
  the string \<open>ExternalEwsUrl\<close> itself counts as present.
\<close>

definition wrapSettingsRequest :: "jsval \<Rightarrow> string" where
  "wrapSettingsRequest settings =
     (let settings = array_concat settings;
          settings =
            (if JStr EWS_URL_SETTING \<notin> set settings then settings @ [JStr EWS_URL_SETTING]
             else settings)
      in join [] (map (\<lambda>setting. ''<a:Setting>'' @ toString setting @ ''</a:Setting>'')
                     settings))"

text \<open>
  \<open>createAutodiscoverSoap\<close> (lines 84-108): the fixed text before the mailbox, between
  the mailbox and the requested settings, and after them.
\<close>

definition soapBeforeMailbox :: string where
  \<open>soapBeforeMailbox =
     ''<?xml version="1.0" encoding="utf-8"?>'' @
     ''<soap:Envelope xmlns:a="http://schemas.microsoft.com/exchange/2010/Autodiscover" '' @
     ''xmlns:wsa="http://www.w3.org/2005/08/addressing" '' @
     ''xmlns:xsi="http://www.w3.org/2001/XMLSchema-instance" '' @
     ''xmlns:soap="http://schemas.xmlsoap.org/soap/envelope/">'' @
     ''  <soap:Header>'' @
     ''    <a:RequestedServerVersion>Exchange2010</a:RequestedServerVersion>'' @
     ''    <wsa:Action>http://schemas.microsoft.com/exchange/2010/Autodiscover/Autodiscover/GetUserSettings</wsa:Action>'' @
     ''  </soap:Header>'' @
     ''  <soap:Body>'' @
     ''    <a:GetUserSettingsRequestMessage xmlns:a="http://schemas.microsoft.com/exchange/2010/Autodiscover">'' @
     ''      <a:Request>'' @
     ''        <a:Users>'' @
     ''          <a:User>'' @
     ''            <a:Mailbox>''\<close>

definition soapAfterMailbox :: string where
  "soapAfterMailbox =
     ''</a:Mailbox>'' @
     ''          </a:User>'' @
     ''        </a:Users>'' @
     ''        <a:RequestedSettings>''"

definition soapAfterSettings :: string where
  "soapAfterSettings =
     ''</a:RequestedSettings>'' @
     ''      </a:Request>'' @
     ''    </a:GetUserSettingsRequestMessage>'' @
     ''  </soap:Body>'' @
     ''</soap:Envelope>''"

definition createAutodiscoverSoap :: "string \<Rightarrow> jsval \<Rightarrow> string" where
  "createAutodiscoverSoap emailAddress settings =
     soapBeforeMailbox @ emailAddress @ soapAfterMailbox @
     wrapSettingsRequest settings @ soapAfterSettings"

section \<open>The collaborators\<close>

text \<open>
  DNS resolver, HTTP client and XML parser are libraries outside the module. A discovery
  call is a function of what they answer: \<open>dnsResolve\<close> answers a lookup of a name and a
  record type, \<open>rp_post\<close> the POST that \<open>tryEndpoint\<close> configures (with the response body,
  or a rejection: network failure or a status outside 2xx), \<open>rp_get\<close> the GET that
  resolves with the full response whatever its status, \<open>parseString\<close> the parser, given
  the name processor for tags and attributes. \<open>settleTime\<close> stands for the timing of
  the network: the time at which the attempt of each index settles.
\<close>

record srv =
  name :: string
  port :: nat
  priority :: nat
  weight :: nat

record response =
  statusCode :: nat
  location :: jsval

record env =
  dnsResolve :: "string \<Rightarrow> string \<Rightarrow> error + srv list"
  rp_post :: "jsval \<Rightarrow> jsval \<Rightarrow> jsval \<Rightarrow> string \<Rightarrow> error + string"
  rp_get :: "string \<Rightarrow> error + response"
  parseString :: "(string \<Rightarrow> string) \<Rightarrow> string \<Rightarrow> error + jsval"
  settleTime :: "nat \<Rightarrow> nat"

text \<open>Every call to a collaborator is recorded, so that a claim can say which were made.\<close>

datatype event =
    DnsResolve string string
  | HttpPost jsval jsval jsval string
  | HttpGet string

section \<open>The DNS domain expander\<close>

text \<open>\<open>queryDns\<close> (lines 45-49): the \<open>catch\<close> turns every rejection into the empty array.\<close>

definition queryDns :: "env \<Rightarrow> string \<Rightarrow> event list \<times> string list" where
  "queryDns env domain =
     ([DnsResolve (''_autodiscover._tcp.'' @ domain) ''SRV''],
      case dnsResolve env (''_autodiscover._tcp.'' @ domain) ''SRV'' of
        Inl e \<Rightarrow> []
      | Inr response \<Rightarrow> map name response)"

section \<open>The endpoint racer\<close>

text \<open>\<open>tryEndpoint\<close> (lines 51-65).\<close>

definition tryEndpoint ::
  "env \<Rightarrow> jsval \<Rightarrow> jsval \<Rightarrow> jsval \<Rightarrow> string \<Rightarrow> event list \<times> (error + string)" where
  "tryEndpoint env url username password requestBody =
     ([HttpPost url username password requestBody],
      rp_post env url username password requestBody)"

text \<open>The third promise of a domain (lines 132-144): GET, then POST to the redirect target.\<close>

definition redirectEndpoint ::
  "env \<Rightarrow> string \<Rightarrow> jsval \<Rightarrow> jsval \<Rightarrow> string \<Rightarrow> event list \<times> (error + string)" where
  "redirectEndpoint env domain username password requestBody =
     (let uri = ''http://autodiscover.'' @ domain @ ''/autodiscover/autodiscover.svc''
      in case rp_get env uri of
           Inl e \<Rightarrow> ([HttpGet uri], Inl e)
         | Inr response \<Rightarrow>
             if statusCode response \<noteq> 302 then ([HttpGet uri], Inl NotRedirectError)
             else (let (ev, r) = tryEndpoint env (location response) username password
                                   requestBody
                   in (HttpGet uri # ev, r)))"

text \<open>The three promises pushed for one domain, and the array for all domains (lines 125-145).\<close>

definition domainPromises ::
  "env \<Rightarrow> string \<Rightarrow> jsval \<Rightarrow> jsval \<Rightarrow> string \<Rightarrow> (event list \<times> (error + string)) list" where
  "domainPromises env domain username password requestBody =
     [tryEndpoint env (JStr (''https://'' @ domain @ ''/autodiscover/autodiscover.svc''))
        username password requestBody,
      tryEndpoint env
        (JStr (''https://autodiscover.'' @ domain @ ''/autodiscover/autodiscover.svc''))
        username password requestBody,
      redirectEndpoint env domain username password requestBody]"

definition promises ::
  "env \<Rightarrow> string list \<Rightarrow> jsval \<Rightarrow> jsval \<Rightarrow> string \<Rightarrow> (event list \<times> (error + string)) list" where
  "promises env domains username password requestBody =
     concat (map (\<lambda>domain. domainPromises env domain username password requestBody) domains)"

text \<open>
  \<open>Promise.any\<close>: fulfils with the value of the attempt that fulfils first, and rejects
  with the aggregate of all rejections, in the order in which they happened, when none
  fulfils; an empty array is rejected with a RangeError. The attempts settle in the
  order of their settle times (the one pushed first goes first among equal times), so
  every order of completion is that of some settle times.
\<close>

definition settlementOrder :: "(nat \<Rightarrow> nat) \<Rightarrow> nat \<Rightarrow> nat list" where
  "settlementOrder t n = sort_key t [0..<n]"

definition fulfilled :: "(error + 'a) list \<Rightarrow> 'a list" where
  "fulfilled rs = concat (map (\<lambda>r. case r of Inl e \<Rightarrow> [] | Inr v \<Rightarrow> [v]) rs)"

definition rejected :: "(error + 'a) list \<Rightarrow> error list" where
  "rejected rs = concat (map (\<lambda>r. case r of Inl e \<Rightarrow> [e] | Inr v \<Rightarrow> []) rs)"

definition promise_any :: "(nat \<Rightarrow> nat) \<Rightarrow> (error + 'a) list \<Rightarrow> error + 'a" where
  "promise_any t rs =
     (if rs = [] then Inl RangeError
      else (let settled = map (\<lambda>i. rs ! i) (settlementOrder t (length rs))
            in case fulfilled settled of
                 [] \<Rightarrow> Inl (AllEndpointsFailedError (rejected settled))
               | v # vs \<Rightarrow> Inr v))"

section \<open>The response extractor\<close>

text \<open>\<open>xmlToJson\<close> (lines 29-36).\<close>

definition xmlToJson :: "env \<Rightarrow> string \<Rightarrow> error + jsval" where
  "xmlToJson env xmlString = parseString env removePrefix xmlString"

text \<open>The chain of property reads of lines 151-152.\<close>

fun getPath :: "jsval \<Rightarrow> string list \<Rightarrow> error + jsval" where
  "getPath v [] = Inr v"
| "getPath v (p # ps) = (case getProp v p of Inl e \<Rightarrow> Inl e | Inr c \<Rightarrow> getPath c ps)"

definition userSettingPath :: "string list" where
  "userSettingPath =
     [''envelope'', ''body'', ''getUserSettingsResponseMessage'', ''response'',
      ''userResponses'', ''userResponse'', ''userSettings'', ''userSetting'']"

text \<open>
  The object that the \<open>reduce\<close> of lines 155-158 builds from \<open>{}\<close>: its own properties,
  and its prototype when an assignment has replaced it (\<open>None\<close>: still the prototype of
  every object literal).
\<close>

record settingsObject =
  ownProps :: "(string \<times> jsval) list"
  prototype :: "jsval option"

text \<open>
  The assignment \<open>userSettings[k] = v\<close>. It replaces the own property \<open>k\<close> or adds it,
  but for one name: \<open>__proto__\<close> is an accessor that every ordinary object inherits, and
  assigning to it stores no property; it makes \<open>v\<close> the prototype when \<open>v\<close> is an object,
  an array or null, and does nothing otherwise. The accessor is inherited as long as
  the prototype chain reaches the prototype of object literals without meeting a
  property of that name.
\<close>

fun inheritsProtoAccessor :: "jsval option \<Rightarrow> bool" where
  "inheritsProtoAccessor None = True"
| "inheritsProtoAccessor (Some (JObj kvs)) = (map_of kvs ''__proto__'' = None)"
| "inheritsProtoAccessor (Some (JArr xs)) = True"
| "inheritsProtoAccessor (Some v) = False"

definition assignProp :: "settingsObject \<Rightarrow> string \<Rightarrow> jsval \<Rightarrow> settingsObject" where
  "assignProp obj k v =
     (if k = ''__proto__'' \<and> map_of (ownProps obj) k = None
         \<and> inheritsProtoAccessor (prototype obj)
      then (case v of
              JObj kvs \<Rightarrow> obj\<lparr>prototype := Some v\<rparr>
            | JArr xs \<Rightarrow> obj\<lparr>prototype := Some v\<rparr>
            | JNull \<Rightarrow> obj\<lparr>prototype := Some v\<rparr>
            | _ \<Rightarrow> obj)
      else obj\<lparr>ownProps := AList.update k v (ownProps obj)\<rparr>)"

text \<open>
  The read \<open>settings[k]\<close>: the own property, or else the property of the prototype that
  an assignment has put in place (for the name read here, which no built-in prototype
  holds).
\<close>

definition readProp :: "settingsObject \<Rightarrow> string \<Rightarrow> jsval" where
  "readProp obj k =
     (case map_of (ownProps obj) k of
        Some v \<Rightarrow> v
      | None \<Rightarrow> (case prototype obj of None \<Rightarrow> JUndefined | Some p \<Rightarrow> lookupProp p k))"

text \<open>The \<open>reduce\<close> of lines 155-158.\<close>

fun reduceSettings :: "settingsObject \<Rightarrow> jsval list \<Rightarrow> error + settingsObject" where
  "reduceSettings userSettings [] = Inr userSettings"
| "reduceSettings userSettings (setting # rest) =
     (case getProp setting ''name'' of
        Inl e \<Rightarrow> Inl e
      | Inr n \<Rightarrow>
          (case getProp setting ''value'' of
             Inl e \<Rightarrow> Inl e
           | Inr v \<Rightarrow> reduceSettings (assignProp userSettings (toString n) v) rest))"

text \<open>The last \<open>then\<close> of \<open>autodiscoverDomains\<close> (lines 150-159).\<close>

definition extractSettings :: "jsval \<Rightarrow> error + settingsObject" where
  "extractSettings result =
     (case getPath result userSettingPath of
        Inl e \<Rightarrow> Inl e
      | Inr userSettings \<Rightarrow>
          reduceSettings \<lparr>ownProps = [], prototype = None\<rparr> (array_concat userSettings))"

text \<open>
  The race itself (lines 123-148): all attempts are made, whichever wins, since nothing
  cancels the others.
\<close>

definition raceEndpoints ::
  "env \<Rightarrow> string list \<Rightarrow> string \<Rightarrow> jsval \<Rightarrow> jsval \<Rightarrow> jsval \<Rightarrow> event list \<times> (error + string)" where
  "raceEndpoints env domains emailAddress password username settings =
     (let requestBody = createAutodiscoverSoap emailAddress settings;
          ps = promises env domains username password requestBody
      in (concat (map fst ps), promise_any (settleTime env) (map snd ps)))"

text \<open>\<open>autodiscoverDomains\<close> (lines 122-160).\<close>

definition autodiscoverDomains ::
  "env \<Rightarrow> string list \<Rightarrow> string \<Rightarrow> jsval \<Rightarrow> jsval \<Rightarrow> jsval
     \<Rightarrow> event list \<times> (error + settingsObject)" where
  "autodiscoverDomains env domains emailAddress password username settings =
     (let (ev, won) = raceEndpoints env domains emailAddress password username settings
      in (ev,
          case won of
            Inl e \<Rightarrow> Inl e
          | Inr body \<Rightarrow>
              (case xmlToJson env body of
                 Inl e \<Rightarrow> Inl e
               | Inr result \<Rightarrow> extractSettings result)))"

section \<open>The discovery orchestrator\<close>

text \<open>
  The parameter object of the exported function. The optional fields are undefined when
  the caller leaves them out. The optional callback is handed the same outcome as the
  returned promise and is not modelled.
\<close>

record params =
  p_emailAddress :: string
  p_password :: jsval
  p_username :: jsval
  p_queryDns :: jsval
  p_settings :: jsval

text \<open>Line 181: the text after the first \<open>@\<close>; the whole address when there is none.\<close>

definition smtpDomainOf :: "string \<Rightarrow> string" where
  "smtpDomainOf emailAddress = substr emailAddress (indexOf emailAddress CHR ''@'' + 1)"

text \<open>
  The first half of the exported function (lines 175-192): the candidate domains handed
  to \<open>autodiscoverDomains\<close>, with the lookups made to find them.
\<close>

definition expandDomains :: "env \<Rightarrow> params \<Rightarrow> event list \<times> string list" where
  "expandDomains env params =
     (let emailAddress = p_emailAddress params;
          query = js_or (p_queryDns params) (JBool True);
          smtpDomain = smtpDomainOf emailAddress;
          domains = [smtpDomain];
          (ev, otherDomains) = (if truthy query then queryDns env smtpDomain else ([], []))
      in (ev, domains @ otherDomains))"

text \<open>
  What a discovery call resolves with: the settings object itself, or the value read
  from it.
\<close>

datatype result =
    ResultSettings settingsObject
  | ResultValue jsval

text \<open>The exported function (lines 174-209).\<close>

definition autodiscover :: "env \<Rightarrow> params \<Rightarrow> event list \<times> (error + result)" where
  "autodiscover env params =
     (let emailAddress = p_emailAddress params;
          password = p_password params;
          username = js_or (p_username params) (JStr emailAddress);
          requestedSettings = p_settings params;
          (ev1, domains) = expandDomains env params;
          (ev2, r) = autodiscoverDomains env domains emailAddress password username
                       requestedSettings
      in (ev1 @ ev2,
          case r of
            Inl errors \<Rightarrow> Inl errors
          | Inr settings \<Rightarrow>
              Inr (if truthy requestedSettings then ResultSettings settings
                   else ResultValue (readProp settings EWS_URL_SETTING))))"

section \<open>Notions used to state the properties\<close>

text \<open>
  The segments of a name around its first colon: the text before it (the whole name
  when there is none), and the text after it up to the next colon or the end.
\<close>

definition segmentBeforeColon :: "string \<Rightarrow> string" where
  "segmentBeforeColon s = takeWhile (\<lambda>x. x \<noteq> CHR '':'') s"

definition segmentAfterColon :: "string \<Rightarrow> string" where
  "segmentAfterColon s =
     takeWhile (\<lambda>x. x \<noteq> CHR '':'') (drop 1 (dropWhile (\<lambda>x. x \<noteq> CHR '':'') s))"

definition lowerFirst :: "string \<Rightarrow> string" where
  "lowerFirst s = (case s of [] \<Rightarrow> [] | c # cs \<Rightarrow> lower_char c # cs)"

text \<open>
  The letters of the code units below 256 that have a lower case, and their lower-case
  letters in the same order: A to Z, then U+00C0 to U+00DE without the multiplication
  sign U+00D7.
\<close>

definition upperCaseLetters :: string where
  "upperCaseLetters = ''ABCDEFGHIJKLMNOPQRSTUVWXYZ'' @
     [CHR 0xC0, CHR 0xC1, CHR 0xC2, CHR 0xC3, CHR 0xC4, CHR 0xC5, CHR 0xC6, CHR 0xC7,
      CHR 0xC8, CHR 0xC9, CHR 0xCA, CHR 0xCB, CHR 0xCC, CHR 0xCD, CHR 0xCE, CHR 0xCF,
      CHR 0xD0, CHR 0xD1, CHR 0xD2, CHR 0xD3, CHR 0xD4, CHR 0xD5, CHR 0xD6, CHR 0xD8,
      CHR 0xD9, CHR 0xDA, CHR 0xDB, CHR 0xDC, CHR 0xDD, CHR 0xDE]"

definition lowerCaseLetters :: string where
  "lowerCaseLetters = ''abcdefghijklmnopqrstuvwxyz'' @
     [CHR 0xE0, CHR 0xE1, CHR 0xE2, CHR 0xE3, CHR 0xE4, CHR 0xE5, CHR 0xE6, CHR 0xE7,
      CHR 0xE8, CHR 0xE9, CHR 0xEA, CHR 0xEB, CHR 0xEC, CHR 0xED, CHR 0xEE, CHR 0xEF,
      CHR 0xF0, CHR 0xF1, CHR 0xF2, CHR 0xF3, CHR 0xF4, CHR 0xF5, CHR 0xF6, CHR 0xF8,
      CHR 0xF9, CHR 0xFA, CHR 0xFB, CHR 0xFC, CHR 0xFD, CHR 0xFE]"

definition lowerCaseOf :: "char \<Rightarrow> char" where
  "lowerCaseOf c =
     (case map_of (zip upperCaseLetters lowerCaseLetters) c of None \<Rightarrow> c | Some l \<Rightarrow> l)"

text \<open>
  The normalizer as the specification words it: with a colon, only the segment after
  the colon; without, the name as it is; the first character lower-cased in both cases.
\<close>

definition removePrefix_claimed :: "string \<Rightarrow> string" where
  "removePrefix_claimed s =
     lowerFirst (if CHR '':'' \<in> set s then segmentAfterColon s else s)"

text \<open>
  One \<open><a:Setting>\<close> element, and the names rendered for a request of attribute names:
  the names as supplied, then the endpoint-URL attribute when it is not among them.
\<close>

definition settingNode :: "string \<Rightarrow> string" where
  "settingNode n = ''<a:Setting>'' @ n @ ''</a:Setting>''"

definition renderedNames :: "string list \<Rightarrow> string list" where
  "renderedNames names =
     (if EWS_URL_SETTING \<in> set names then names else names @ [EWS_URL_SETTING])"

text \<open>The number of positions of a text at which a pattern starts.\<close>

fun occurrences :: "string \<Rightarrow> string \<Rightarrow> nat" where
  "occurrences pat [] = (if pat = [] then 1 else 0)"
| "occurrences pat (x # xs) =
     (if take (length pat) (x # xs) = pat then 1 else 0) + occurrences pat xs"

text \<open>
  A tree has a path when each name leads from an object to an own property of it.
\<close>

fun hasPath :: "jsval \<Rightarrow> string list \<Rightarrow> bool" where
  "hasPath v [] = True"
| "hasPath (JObj kvs) (p # ps) =
     (case map_of kvs p of None \<Rightarrow> False | Some c \<Rightarrow> hasPath c ps)"
| "hasPath v (p # ps) = False"



text \<open>
  The parts of one discovery call: the user name and the request body it sends, the
  attempts it makes (the promises array), and the outcome of their race.
\<close>

definition discoveryUsername :: "params \<Rightarrow> jsval" where
  "discoveryUsername params = js_or (p_username params) (JStr (p_emailAddress params))"

definition discoveryBody :: "params \<Rightarrow> string" where
  "discoveryBody params = createAutodiscoverSoap (p_emailAddress params) (p_settings params)"

definition discoveryAttempts :: "env \<Rightarrow> params \<Rightarrow> (event list \<times> (error + string)) list" where
  "discoveryAttempts env params =
     promises env (snd (expandDomains env params)) (discoveryUsername params)
       (p_password params) (discoveryBody params)"

definition winningBody :: "env \<Rightarrow> params \<Rightarrow> error + string" where
  "winningBody env params =
     promise_any (settleTime env) (map snd (discoveryAttempts env params))"

text \<open>
  The failures of the attempts of a call, in the order of the attempts and in the order
  in which the attempts settle.
\<close>

definition attemptFailures :: "env \<Rightarrow> params \<Rightarrow> error list" where
  "attemptFailures env params = map (projl \<circ> snd) (discoveryAttempts env params)"

definition settledFailures :: "env \<Rightarrow> params \<Rightarrow> error list" where
  "settledFailures env params =
     map (\<lambda>i. attemptFailures env params ! i)
       (settlementOrder (settleTime env) (length (discoveryAttempts env params)))"

section \<open>Example servers and requests\<close>

text \<open>
  A response tree carrying a given \<open>userSetting\<close> value at the end of the fixed path,
  some entries for it, and a tree that stops at a fault below \<open>body\<close>.
\<close>

definition ewsUrl :: string where
  "ewsUrl = ''https://outlook.microsoft.com/ews/exchange.asmx''"

definition responseTree :: "jsval \<Rightarrow> jsval" where
  "responseTree userSetting = foldr (\<lambda>p c. JObj [(p, c)]) userSettingPath userSetting"

definition urlSetting :: jsval where
  "urlSetting = JObj [(''name'', JStr ''ExternalEwsUrl''), (''value'', JStr ewsUrl)]"


definition protoSetting :: jsval where
  "protoSetting = JObj [(''name'', JStr ''__proto__''), (''value'', JStr ''x'')]"

definition faultTree :: jsval where
  "faultTree =
     JObj [(''envelope'', JObj [(''body'', JObj [(''fault'', JStr ''ErrorResponse'')])])]"

text \<open>
  \<open>env_up\<close>: the lookup answers one service record, every POST is answered with a
  discovery response holding the endpoint URL alone, the GET is answered 200.
  \<open>env_down\<close>: the lookup fails, every POST fails with an error that names its URL, the
  GET is answered 200, and of the first three attempts the last settles first.
  \<open>env_fault\<close>: as \<open>env_up\<close>, the response being a fault.
\<close>

definition env_up :: env where
  "env_up =
     \<lparr>dnsResolve = (\<lambda>hostname rrtype.
        Inr [\<lparr>name = ''autodiscover.outlook.com'', port = 443, priority = 0, weight = 0\<rparr>]),
      rp_post = (\<lambda>url user pass body. Inr ''<s:Envelope/>''),
      rp_get = (\<lambda>url. Inr \<lparr>statusCode = 200, location = JUndefined\<rparr>),
      parseString = (\<lambda>f xml. Inr (responseTree urlSetting)),
      settleTime = (\<lambda>i. i)\<rparr>"

definition env_down :: env where
  "env_down =
     \<lparr>dnsResolve = (\<lambda>hostname rrtype. Inl (DnsLookupError ''ENOTFOUND'')),
      rp_post = (\<lambda>url user pass body. Inl (TransportError (toString url))),
      rp_get = (\<lambda>url. Inr \<lparr>statusCode = 200, location = JUndefined\<rparr>),
      parseString = (\<lambda>f xml. Inl (ParseError ''Unexpected end'')),
      settleTime = (\<lambda>i. 2 - i)\<rparr>"

definition env_fault :: env where
  "env_fault = env_up\<lparr>parseString := (\<lambda>f xml. Inr faultTree)\<rparr>"

definition request :: "string \<Rightarrow> jsval \<Rightarrow> jsval \<Rightarrow> jsval \<Rightarrow> params" where
  "request emailAddress password query settings =
     \<lparr>p_emailAddress = emailAddress, p_password = password, p_username = JUndefined,
      p_queryDns = query, p_settings = settings\<rparr>"

section \<open>Properties of the name processor\<close>

lemma split_js_unfold:
  "split_js c s =
     takeWhile (\<lambda>x. x \<noteq> c) s #
     (if c \<in> set s then split_js c (drop 1 (dropWhile (\<lambda>x. x \<noteq> c) s)) else [])"
  by (induction s) (auto split: list.splits)

lemma split_js_first: "split_js c s ! 0 = takeWhile (\<lambda>x. x \<noteq> c) s"
  by (subst split_js_unfold) simp

lemma split_js_length: "Suc 0 < length (split_js c s) \<longleftrightarrow> c \<in> set s"
proof -
  have "0 < length (split_js c t)" for t
    by (subst split_js_unfold) simp
  then show ?thesis
    by (subst split_js_unfold) simp
qed

lemma split_js_second:
  assumes "c \<in> set s"
  shows "split_js c s ! Suc 0 =
           takeWhile (\<lambda>x. x \<noteq> c) (drop 1 (dropWhile (\<lambda>x. x \<noteq> c) s))"
proof -
  have "split_js c s ! Suc 0 = split_js c (drop 1 (dropWhile (\<lambda>x. x \<noteq> c) s)) ! 0"
    using assms by (subst split_js_unfold) simp
  then show ?thesis
    by (simp only: split_js_first)
qed

lemma lowerFirst_charAt: "toLowerCase (charAt w 0) @ slice w (Suc 0) = lowerFirst w"
  by (cases w) (simp_all add: toLowerCase_def charAt_def slice_def lowerFirst_def)

text \<open>
  The lower-casing of the model against the table of letters: upper-case letters go to
  their lower-case letters, everything else stays.
\<close>

lemma lower_char_table: "\<forall>c. lower_char c = lowerCaseOf c"
  by code_simp

text \<open>
  C8 on the code: the name \<open>Foo:\<close> contains a colon and the segment after it is empty,
  yet \<open>removePrefix\<close> answers \<open>foo\<close>, the prefix itself in lower case: \<open>||\<close> takes the empty
  second segment for a missing one.
\<close>

theorem removePrefix_trailing_colon:
  "CHR '':'' \<in> set ''Foo:'' \<and> removePrefix ''Foo:'' = ''foo''
   \<and> removePrefix_claimed ''Foo:'' = []"
  by code_simp

text \<open>
  On every name \<open>removePrefix\<close> keeps the segment after the first colon when there is a
  colon and that segment is not empty, and the text before the first colon otherwise;
  so it does what the specification says but on a name whose segment after the first
  colon is empty.
\<close>

lemma removePrefix_eq:
  "removePrefix s =
     lowerFirst (if CHR '':'' \<in> set s \<and> segmentAfterColon s \<noteq> [] then segmentAfterColon s
                 else segmentBeforeColon s)"
proof (cases "CHR '':'' \<in> set s")
  case True
  then show ?thesis
    by (simp add: removePrefix_def Let_def lowerFirst_charAt split_js_length
        split_js_second split_js_first segmentAfterColon_def segmentBeforeColon_def)
next
  case False
  then show ?thesis
    by (simp add: removePrefix_def Let_def lowerFirst_charAt split_js_length
        split_js_first segmentBeforeColon_def)
qed

lemma segmentBeforeColon_no_colon: "CHR '':'' \<notin> set s \<Longrightarrow> segmentBeforeColon s = s"
  by (auto simp: segmentBeforeColon_def)

text \<open>Where the claim and the code agree: no colon, or a non-empty segment after it.\<close>

lemma removePrefix_claimed_holds:
  "CHR '':'' \<notin> set s \<or> segmentAfterColon s \<noteq> [] \<Longrightarrow> removePrefix s = removePrefix_claimed s"
  by (auto simp: removePrefix_eq removePrefix_claimed_def segmentBeforeColon_no_colon)

lemma removePrefix_examples:
  "removePrefix ''a:Foo'' = ''foo'' \<and> removePrefix ''Bar'' = ''bar''
   \<and> removePrefix ''soap:Envelope'' = ''envelope''
   \<and> removePrefix [CHR 0xC9, CHR ''t'', CHR 0xC9] = [CHR 0xE9, CHR ''t'', CHR 0xC9]"
  by code_simp

text \<open>
  A normalized name holds no colon and starts in lower case, so normalizing it again
  changes nothing (the round trip of the specification's testable properties).
\<close>

lemma lower_char_upper:
  assumes "(65 \<le> (of_char c :: nat) \<and> (of_char c :: nat) \<le> 90)
           \<or> (192 \<le> (of_char c :: nat) \<and> (of_char c :: nat) \<le> 214)
           \<or> (216 \<le> (of_char c :: nat) \<and> (of_char c :: nat) \<le> 222)"
  shows "(of_char (lower_char c) :: nat) = of_char c + 32"
proof -
  from assms have "(of_char (lower_char c) :: nat) = (of_char c + 32) mod 256"
    by (simp add: lower_char_def Let_def)
  also have "\<dots> = of_char c + 32"
    using assms by auto
  finally show ?thesis .
qed

lemma lower_char_other:
  assumes "\<not> ((65 \<le> (of_char c :: nat) \<and> (of_char c :: nat) \<le> 90)
           \<or> (192 \<le> (of_char c :: nat) \<and> (of_char c :: nat) \<le> 214)
           \<or> (216 \<le> (of_char c :: nat) \<and> (of_char c :: nat) \<le> 222))"
  shows "lower_char c = c"
  using assms by (auto simp: lower_char_def Let_def)

lemma lower_char_colon: "lower_char c = CHR '':'' \<longleftrightarrow> c = CHR '':''"
proof (cases "(65 \<le> (of_char c :: nat) \<and> (of_char c :: nat) \<le> 90)
           \<or> (192 \<le> (of_char c :: nat) \<and> (of_char c :: nat) \<le> 214)
           \<or> (216 \<le> (of_char c :: nat) \<and> (of_char c :: nat) \<le> 222)")
  case True
  from lower_char_upper [OF True] True have "(97 :: nat) \<le> of_char (lower_char c)"
    by auto
  moreover have "of_char CHR '':'' = (58 :: nat)"
    by simp
  ultimately have "lower_char c \<noteq> CHR '':''"
    by (auto simp del: of_char_Char)
  moreover from True have "c \<noteq> CHR '':''"
    by auto
  ultimately show ?thesis by simp
next
  case False
  from lower_char_other [OF False] show ?thesis
    by simp
qed

lemma lower_char_idem: "lower_char (lower_char c) = lower_char c"
proof (cases "(65 \<le> (of_char c :: nat) \<and> (of_char c :: nat) \<le> 90)
           \<or> (192 \<le> (of_char c :: nat) \<and> (of_char c :: nat) \<le> 214)
           \<or> (216 \<le> (of_char c :: nat) \<and> (of_char c :: nat) \<le> 222)")
  case True
  from lower_char_upper [OF True] True
  have "\<not> ((65 \<le> (of_char (lower_char c) :: nat) \<and> (of_char (lower_char c) :: nat) \<le> 90)
           \<or> (192 \<le> (of_char (lower_char c) :: nat) \<and> (of_char (lower_char c) :: nat) \<le> 214)
           \<or> (216 \<le> (of_char (lower_char c) :: nat) \<and> (of_char (lower_char c) :: nat) \<le> 222))"
    by auto
  then show ?thesis
    by (rule lower_char_other)
next
  case False
  from lower_char_other [OF False] show ?thesis
    by simp
qed

lemma lowerFirst_no_colon: "CHR '':'' \<notin> set w \<Longrightarrow> CHR '':'' \<notin> set (lowerFirst w)"
  by (cases w) (auto simp: lowerFirst_def lower_char_colon eq_commute [of "CHR '':''"])

lemma lowerFirst_idem: "lowerFirst (lowerFirst w) = lowerFirst w"
  by (cases w) (simp_all add: lowerFirst_def lower_char_idem)

lemma removePrefix_no_colon: "CHR '':'' \<notin> set (removePrefix s)"
proof -
  have "CHR '':'' \<notin> set (takeWhile (\<lambda>x. x \<noteq> CHR '':'') t)" for t
    by (auto dest: set_takeWhileD)
  then show ?thesis
    by (simp add: removePrefix_eq segmentAfterColon_def segmentBeforeColon_def
        lowerFirst_no_colon)
qed

lemma removePrefix_idempotent: "removePrefix (removePrefix s) = removePrefix s"
proof -
  have "removePrefix (removePrefix s) = lowerFirst (removePrefix s)"
    using removePrefix_no_colon [of s]
    by (subst removePrefix_eq) (simp add: segmentBeforeColon_no_colon)
  also have "\<dots> = removePrefix s"
    by (subst (1 2) removePrefix_eq) (rule lowerFirst_idem)
  finally show ?thesis .
qed

section \<open>Properties of the request builder\<close>

lemma join_empty: "join [] xs = concat xs"
  by (induction xs rule: induct_list012) simp_all

lemma wrapSettingsRequest_render:
  "wrapSettingsRequest (JArr (map JStr names)) = concat (map settingNode (renderedNames names))"
proof -
  have inj: "JStr EWS_URL_SETTING \<in> set (map JStr names) \<longleftrightarrow> EWS_URL_SETTING \<in> set names"
    by auto
  have node: "map (\<lambda>setting. ''<a:Setting>'' @ toString setting @ ''</a:Setting>'') (map JStr xs)
                = map settingNode xs" for xs
    by (simp add: settingNode_def)
  have last: "map JStr names @ [JStr EWS_URL_SETTING] = map JStr (names @ [EWS_URL_SETTING])"
    by simp
  show ?thesis
  proof (cases "EWS_URL_SETTING \<in> set names")
    case True
    then show ?thesis
      unfolding wrapSettingsRequest_def Let_def array_concat.simps inj join_empty
        renderedNames_def
      by (simp only: node simp_thms if_True if_False)
  next
    case False
    then show ?thesis
      unfolding wrapSettingsRequest_def Let_def array_concat.simps inj join_empty
        renderedNames_def
      by (simp only: last node simp_thms if_True if_False)
  qed
qed

text \<open>
  Counting the elements in the rendered text: when no name contains \<open><\<close>, the element of
  \<open>ExternalEwsUrl\<close> starts in the text exactly where an entry of that name was rendered.
\<close>

lemma takeWhile_take_comm: "takeWhile P (take k xs) = take k (takeWhile P xs)"
proof (induction xs arbitrary: k)
  case Nil
  then show ?case by simp
next
  case (Cons x xs)
  then show ?case by (cases k) simp_all
qed

lemma occurrences_skip:
  "\<forall>x\<in>set a. x \<noteq> c \<Longrightarrow> occurrences (c # p) (a @ b) = occurrences (c # p) b"
  by (induction a) simp_all

text \<open>
  Two texts free of a delimiter, each followed by it: where one starts the other,
  delimiter included, the two are equal.
\<close>

lemma delimited_take_eq:
  assumes n: "d \<notin> set n" and e: "d \<notin> set e"
    and m: "take (length e + Suc k) (n @ d # r) = e @ d # s"
  shows "n = e"
proof -
  let ?P = "\<lambda>x. x \<noteq> d"
  have b: "takeWhile ?P (e @ d # s) = e"
    using e by (auto simp: takeWhile_tail)
  have c: "takeWhile ?P (n @ d # r) = n"
    using n by (auto simp: takeWhile_tail)
  have "take (length e + Suc k) n = take (length e + Suc k) (takeWhile ?P (n @ d # r))"
    by (simp only: c)
  also have "\<dots> = takeWhile ?P (take (length e + Suc k) (n @ d # r))"
    by (simp only: takeWhile_take_comm)
  also have "\<dots> = takeWhile ?P (e @ d # s)"
    by (simp only: m)
  also have "\<dots> = e"
    by (rule b)
  finally have eq: "take (length e + Suc k) n = e" .
  then have "length e = min (length n) (length e + Suc k)"
    by (metis length_take)
  then have "length n \<le> length e + Suc k"
    by simp
  with eq show ?thesis by simp
qed

lemma settingNode_match:
  assumes "CHR ''<'' \<notin> set n"
  shows "take (length (settingNode EWS_URL_SETTING)) (settingNode n @ t) = settingNode EWS_URL_SETTING
           \<longleftrightarrow> n = EWS_URL_SETTING"
proof
  assume "n = EWS_URL_SETTING"
  then show "take (length (settingNode EWS_URL_SETTING)) (settingNode n @ t)
               = settingNode EWS_URL_SETTING"
    by simp
next
  assume a: "take (length (settingNode EWS_URL_SETTING)) (settingNode n @ t)
               = settingNode EWS_URL_SETTING"
  have e: "CHR ''<'' \<notin> set EWS_URL_SETTING"
    by (simp add: EWS_URL_SETTING_def)
  have l: "length (settingNode EWS_URL_SETTING)
             = length ''<a:Setting>'' + (length EWS_URL_SETTING + Suc 11)"
    by (simp add: settingNode_def)
  have w: "settingNode n @ t = ''<a:Setting>'' @ (n @ CHR ''<'' # ''/a:Setting>'' @ t)"
    by (simp add: settingNode_def)
  have pt: "settingNode EWS_URL_SETTING
              = ''<a:Setting>'' @ (EWS_URL_SETTING @ CHR ''<'' # ''/a:Setting>'')"
    by (simp add: settingNode_def)
  have tk: "take (length p + k) (p @ x) = p @ take k x" for k and p x :: string
    by simp
  note a [unfolded l, unfolded w tk, unfolded pt]
  then have "take (length EWS_URL_SETTING + Suc 11) (n @ CHR ''<'' # ''/a:Setting>'' @ t)
               = EWS_URL_SETTING @ CHR ''<'' # ''/a:Setting>''"
    by (simp only: same_append_eq)
  from delimited_take_eq [OF assms e this] show "n = EWS_URL_SETTING" .
qed

lemma occurrences_settingNode:
  assumes "CHR ''<'' \<notin> set n"
  shows "occurrences (settingNode EWS_URL_SETTING) (settingNode n @ t)
           = (if n = EWS_URL_SETTING then 1 else 0) + occurrences (settingNode EWS_URL_SETTING) t"
proof -
  define pat where "pat = settingNode EWS_URL_SETTING"
  define r where "r = (''a:Setting>'' @ n) @ (CHR ''<'' # ''/a:Setting>'' @ t)"
  have pat: "pat = CHR ''<'' # ''a:Setting>'' @ EWS_URL_SETTING @ ''</a:Setting>''"
    by (simp add: pat_def settingNode_def)
  have whole: "settingNode n @ t = CHR ''<'' # r"
    by (simp add: r_def settingNode_def)
  have "occurrences pat (settingNode n @ t)
          = (if take (length pat) (settingNode n @ t) = pat then 1 else 0) + occurrences pat r"
    unfolding whole by (rule occurrences.simps)
  also have "(if take (length pat) (settingNode n @ t) = pat then 1 else 0)
               = (if n = EWS_URL_SETTING then 1 else (0::nat))"
    unfolding pat_def by (simp only: settingNode_match [OF assms])
  also have "occurrences pat r = occurrences pat (CHR ''<'' # ''/a:Setting>'' @ t)"
    unfolding r_def pat using assms by (intro occurrences_skip) auto
  also have "occurrences pat (CHR ''<'' # ''/a:Setting>'' @ t)
               = occurrences pat (''/a:Setting>'' @ t)"
    by (simp add: pat)
  also have "occurrences pat (''/a:Setting>'' @ t) = occurrences pat t"
    unfolding pat by (intro occurrences_skip) auto
  finally show ?thesis
    unfolding pat_def .
qed

lemma occurrences_rendered:
  assumes "\<forall>n\<in>set names. CHR ''<'' \<notin> set n"
  shows "occurrences (settingNode EWS_URL_SETTING) (concat (map settingNode names))
           = count_list names EWS_URL_SETTING"
  using assms
proof (induction names)
  case Nil
  then show ?case by (simp add: settingNode_def)
next
  case (Cons n names)
  then show ?case by (simp add: occurrences_settingNode)
qed

text \<open>
  C3, as stated, fails when the caller's list holds the endpoint-URL attribute twice:
  nothing removes the second, and the rendered settings hold two such elements.
\<close>

theorem duplicate_request_rendered_twice:
  "wrapSettingsRequest (JArr [JStr ''ExternalEwsUrl'', JStr ''ExternalEwsUrl'']) =
     ''<a:Setting>ExternalEwsUrl</a:Setting><a:Setting>ExternalEwsUrl</a:Setting>''
   \<and> occurrences ''<a:Setting>ExternalEwsUrl</a:Setting>''
        (wrapSettingsRequest (JArr [JStr ''ExternalEwsUrl'', JStr ''ExternalEwsUrl''])) = 2
   \<and> createAutodiscoverSoap ''foo@bar.onmicrosoft.com''
        (JArr [JStr ''ExternalEwsUrl'', JStr ''ExternalEwsUrl'']) =
      soapBeforeMailbox @ ''foo@bar.onmicrosoft.com'' @ soapAfterMailbox @
      ''<a:Setting>ExternalEwsUrl</a:Setting><a:Setting>ExternalEwsUrl</a:Setting>'' @
      soapAfterSettings"
proof -
  have w: "wrapSettingsRequest (JArr [JStr ''ExternalEwsUrl'', JStr ''ExternalEwsUrl'']) =
     ''<a:Setting>ExternalEwsUrl</a:Setting><a:Setting>ExternalEwsUrl</a:Setting>''"
    by code_simp
  have n: "occurrences ''<a:Setting>ExternalEwsUrl</a:Setting>''
     ''<a:Setting>ExternalEwsUrl</a:Setting><a:Setting>ExternalEwsUrl</a:Setting>'' = 2"
    by code_simp
  show ?thesis
    by (simp only: createAutodiscoverSoap_def w n simp_thms)
qed

text \<open>
  C3, amended: for every sequence of requested attribute names, the rendered settings
  are one \<open><a:Setting>\<close> element per name of a list that holds the requested names in
  their supplied order, followed by \<open>ExternalEwsUrl\<close> when the request does not hold it.
  So \<open>ExternalEwsUrl\<close> is rendered once when it is requested once or not at all, and as
  often as it is requested otherwise; the other names are rendered as supplied. When no
  requested name contains \<open><\<close>, that is also the number of \<open>ExternalEwsUrl\<close> elements
  found in the rendered text.
\<close>

theorem wrapSettingsRequest_names:
  "wrapSettingsRequest (JArr (map JStr names)) = concat (map settingNode (renderedNames names))
   \<and> count_list (renderedNames names) EWS_URL_SETTING
       = max 1 (count_list names EWS_URL_SETTING)
   \<and> filter (\<lambda>n. n \<noteq> EWS_URL_SETTING) (renderedNames names)
       = filter (\<lambda>n. n \<noteq> EWS_URL_SETTING) names
   \<and> ((\<forall>n\<in>set names. CHR ''<'' \<notin> set n) \<longrightarrow>
        occurrences (settingNode EWS_URL_SETTING) (wrapSettingsRequest (JArr (map JStr names)))
          = max 1 (count_list names EWS_URL_SETTING))"
proof -
  have render: "wrapSettingsRequest (JArr (map JStr names))
                  = concat (map settingNode (renderedNames names))"
    by (rule wrapSettingsRequest_render)
  have count: "count_list (renderedNames names) EWS_URL_SETTING
                 = max 1 (count_list names EWS_URL_SETTING)"
  proof (cases "EWS_URL_SETTING \<in> set names")
    case True
    then have "count_list names EWS_URL_SETTING \<noteq> 0"
      by (simp add: count_list_0_iff)
    with True show ?thesis
      by (simp add: renderedNames_def)
  next
    case False
    then show ?thesis
      by (simp add: renderedNames_def count_list_0_iff)
  qed
  have others: "filter (\<lambda>n. n \<noteq> EWS_URL_SETTING) (renderedNames names)
                  = filter (\<lambda>n. n \<noteq> EWS_URL_SETTING) names"
    by (simp add: renderedNames_def)
  have found: "occurrences (settingNode EWS_URL_SETTING)
                  (wrapSettingsRequest (JArr (map JStr names)))
                = max 1 (count_list names EWS_URL_SETTING)"
    if plain: "\<forall>n\<in>set names. CHR ''<'' \<notin> set n"
  proof -
    have "CHR ''<'' \<notin> set EWS_URL_SETTING"
      by (simp add: EWS_URL_SETTING_def)
    with plain have "\<forall>n\<in>set (renderedNames names). CHR ''<'' \<notin> set n"
      by (simp add: renderedNames_def)
    from occurrences_rendered [OF this] show ?thesis
      by (simp only: render count)
  qed
  from render count others found show ?thesis
    by (intro conjI impI)
qed

theorem wrapSettingsRequest_names_witness:
  "wrapSettingsRequest (JArr [JStr ''EwsSupportedSchemas'', JStr ''ExternalEwsVersion'']) =
     ''<a:Setting>EwsSupportedSchemas</a:Setting><a:Setting>ExternalEwsVersion</a:Setting><a:Setting>ExternalEwsUrl</a:Setting>''
   \<and> occurrences ''<a:Setting>ExternalEwsUrl</a:Setting>''
        (wrapSettingsRequest (JArr [JStr ''EwsSupportedSchemas'', JStr ''ExternalEwsVersion'']))
       = 1"
proof -
  define names where "names = [''EwsSupportedSchemas'', ''ExternalEwsVersion'']"
  have arg: "JArr (map JStr names) = JArr [JStr ''EwsSupportedSchemas'', JStr ''ExternalEwsVersion'']"
    by (simp add: names_def)
  have a: "concat (map settingNode (renderedNames names))
    = ''<a:Setting>EwsSupportedSchemas</a:Setting><a:Setting>ExternalEwsVersion</a:Setting><a:Setting>ExternalEwsUrl</a:Setting>''"
    unfolding names_def by code_simp
  have plain: "\<forall>n\<in>set names. CHR ''<'' \<notin> set n"
    by (simp add: names_def)
  have node: "settingNode EWS_URL_SETTING = ''<a:Setting>ExternalEwsUrl</a:Setting>''"
    by (simp add: settingNode_def EWS_URL_SETTING_def)
  have k: "max 1 (count_list names EWS_URL_SETTING) = 1"
    by (simp add: names_def EWS_URL_SETTING_def)
  note t = wrapSettingsRequest_names [of names]
  from t [THEN conjunct1]
  have r: "wrapSettingsRequest (JArr [JStr ''EwsSupportedSchemas'', JStr ''ExternalEwsVersion''])
    = ''<a:Setting>EwsSupportedSchemas</a:Setting><a:Setting>ExternalEwsVersion</a:Setting><a:Setting>ExternalEwsUrl</a:Setting>''"
    by (simp only: arg a)
  from t [THEN conjunct2, THEN conjunct2, THEN conjunct2, THEN mp, OF plain]
  have o: "occurrences ''<a:Setting>ExternalEwsUrl</a:Setting>''
        (wrapSettingsRequest (JArr [JStr ''EwsSupportedSchemas'', JStr ''ExternalEwsVersion'']))
       = 1"
    by (simp only: arg node k)
  from r o show ?thesis
    by (intro conjI)
qed

text \<open>
  C10: with the settings parameter left out, the rendered settings start with an element
  whose text is \<open>undefined\<close>, followed by the element of the endpoint-URL attribute; the
  request body carries them between its fixed parts.
\<close>

theorem omitted_settings_render_undefined:
  "wrapSettingsRequest JUndefined =
     ''<a:Setting>undefined</a:Setting><a:Setting>ExternalEwsUrl</a:Setting>''
   \<and> createAutodiscoverSoap emailAddress JUndefined =
     soapBeforeMailbox @ emailAddress @ soapAfterMailbox @
     ''<a:Setting>undefined</a:Setting><a:Setting>ExternalEwsUrl</a:Setting>'' @
     soapAfterSettings"
  by (simp add: createAutodiscoverSoap_def wrapSettingsRequest_def EWS_URL_SETTING_def)

section \<open>Properties of the response extractor\<close>

lemma getPath_undefined:
  "getPath JUndefined ps = (if ps = [] then Inr JUndefined else Inl MalformedResponseError)"
  by (cases ps) (simp_all add: getProp_def)

text \<open>
  Where a node of the path is missing, the chain of reads either throws or, when only
  the last node is missing, ends in undefined.
\<close>

lemma getPath_absent:
  "\<not> hasPath v ps \<Longrightarrow>
     getPath v ps = Inl MalformedResponseError \<or> getPath v ps = Inr JUndefined"
proof (induction ps arbitrary: v)
  case Nil
  then show ?case by simp
next
  case (Cons p ps)
  show ?case
  proof (cases v)
    case (JObj kvs)
    show ?thesis
    proof (cases "map_of kvs p")
      case None
      with JObj show ?thesis
        by (simp add: getProp_def getPath_undefined)
    next
      case (Some c)
      with JObj Cons.prems have "\<not> hasPath c ps" by simp
      from Cons.IH [OF this] JObj Some show ?thesis
        by (simp add: getProp_def)
    qed
  qed (simp_all add: getProp_def getPath_undefined)
qed

lemma extractSettings_absent:
  assumes "\<not> hasPath tree userSettingPath"
  shows "extractSettings tree = Inl MalformedResponseError"
  using getPath_absent [OF assms]
  by (auto simp: extractSettings_def getProp_def)




text \<open>
  What an entry named \<open>__proto__\<close> does: with a string as its value it leaves the object
  as it was; with an object as its value it replaces the prototype, through which a
  read then finds what the object itself does not hold.
\<close>

lemma proto_entry_ignored:
  "extractSettings (responseTree (JArr [urlSetting, protoSetting]))
     = Inr \<lparr>ownProps = [(''ExternalEwsUrl'', JStr ewsUrl)], prototype = None\<rparr>"
  by (simp add: extractSettings_def responseTree_def userSettingPath_def urlSetting_def
      protoSetting_def getProp_def assignProp_def)

lemma proto_entry_inherited:
  "extractSettings
     (responseTree (JObj [(''name'', JStr ''__proto__''),
                          (''value'', JObj [(''ExternalEwsUrl'', JStr ewsUrl)])]))
     = Inr \<lparr>ownProps = [], prototype = Some (JObj [(''ExternalEwsUrl'', JStr ewsUrl)])\<rparr>
   \<and> readProp \<lparr>ownProps = [], prototype = Some (JObj [(''ExternalEwsUrl'', JStr ewsUrl)])\<rparr>
         EWS_URL_SETTING = JStr ewsUrl"
  by (simp add: extractSettings_def responseTree_def userSettingPath_def
      getProp_def assignProp_def readProp_def EWS_URL_SETTING_def)



section \<open>Properties of a discovery call\<close>

lemma truthy_query: "truthy (js_or q (JBool True))"
  by (simp add: js_or_def)

text \<open>
  Whatever \<open>queryDns\<close> is, \<open>params.queryDns || true\<close> is truthy: the lookup is always made,
  and its answer always appended to the SMTP domain.
\<close>

lemma expandDomains_always_queries:
  "expandDomains env params =
     (fst (queryDns env (smtpDomainOf (p_emailAddress params))),
      smtpDomainOf (p_emailAddress params)
        # snd (queryDns env (smtpDomainOf (p_emailAddress params))))"
  by (simp add: expandDomains_def Let_def truthy_query split: prod.splits)


lemma autodiscover_outcome:
  "snd (autodiscover env params) =
     (case winningBody env params of
        Inl e \<Rightarrow> Inl e
      | Inr body \<Rightarrow>
          (case xmlToJson env body of
             Inl e \<Rightarrow> Inl e
           | Inr result \<Rightarrow>
               (case extractSettings result of
                  Inl e \<Rightarrow> Inl e
                | Inr settings \<Rightarrow>
                    Inr (if truthy (p_settings params) then ResultSettings settings
                         else ResultValue (readProp settings EWS_URL_SETTING)))))"
  by (simp add: autodiscover_def autodiscoverDomains_def raceEndpoints_def Let_def
      winningBody_def discoveryAttempts_def discoveryUsername_def discoveryBody_def
      split: prod.splits sum.splits)

text \<open>The attempts settle in an order that holds each of them once.\<close>

lemma settled_mset:
  "mset (map (\<lambda>i. rs ! i) (settlementOrder t (length rs))) = mset rs"
proof -
  have "mset (map (\<lambda>i. rs ! i) (settlementOrder t (length rs)))
          = image_mset (\<lambda>i. rs ! i) (mset (settlementOrder t (length rs)))"
    by simp
  also have "\<dots> = image_mset (\<lambda>i. rs ! i) (mset [0..<length rs])"
    by (simp add: settlementOrder_def)
  also have "\<dots> = mset (map (\<lambda>i. rs ! i) [0..<length rs])"
    by simp
  also have "\<dots> = mset rs"
    by (simp only: map_nth)
  finally show ?thesis .
qed

lemma settled_set: "set (map (\<lambda>i. rs ! i) (settlementOrder t (length rs))) = set rs"
  using settled_mset [of rs t] by (metis set_mset_mset)

lemma fulfilled_set: "set (fulfilled rs) = {v. Inr v \<in> set rs}"
  by (induction rs) (auto simp: fulfilled_def split: sum.splits)

lemma all_rejected:
  assumes "\<forall>r\<in>set rs. isl r"
  shows "fulfilled rs = [] \<and> rejected rs = map projl rs"
  using assms by (induction rs) (auto simp: fulfilled_def rejected_def split: sum.splits)

lemma promise_any_all_rejected:
  assumes "rs \<noteq> []" and "\<forall>r\<in>set rs. isl r"
  shows "promise_any t rs =
           Inl (AllEndpointsFailedError
                  (map (\<lambda>i. projl (rs ! i)) (settlementOrder t (length rs))))"
proof -
  from assms(2) have "\<forall>r\<in>set (map (\<lambda>i. rs ! i) (settlementOrder t (length rs))). isl r"
    by (simp only: settled_set)
  from all_rejected [OF this] assms(1) show ?thesis
    by (simp add: promise_any_def Let_def comp_def)
qed

lemma promise_any_fulfilled:
  assumes "Inr v \<in> set rs"
  shows "\<exists>w. promise_any t rs = Inr w \<and> Inr w \<in> set rs"
proof -
  let ?settled = "map (\<lambda>i. rs ! i) (settlementOrder t (length rs))"
  from assms have ne: "rs \<noteq> []"
    by auto
  from assms have "v \<in> set (fulfilled ?settled)"
    by (simp only: fulfilled_set settled_set) simp
  then obtain w ws where f: "fulfilled ?settled = w # ws"
    by (cases "fulfilled ?settled") auto
  then have "w \<in> set (fulfilled ?settled)"
    by simp
  then have "Inr w \<in> set rs"
    by (simp only: fulfilled_set settled_set) simp
  moreover from ne f have "promise_any t rs = Inr w"
    by (simp add: promise_any_def Let_def)
  ultimately show ?thesis by blast
qed


text \<open>A call makes three attempts for each candidate, so at least three.\<close>

lemma discoveryAttempts_length:
  "length (discoveryAttempts env params) = 3 * length (snd (expandDomains env params))
   \<and> 3 \<le> length (discoveryAttempts env params)"
proof -
  have "length (promises env ds u w b) = 3 * length ds" for ds u w b
    by (induction ds) (simp_all add: promises_def domainPromises_def)
  then show ?thesis
    by (simp add: discoveryAttempts_def expandDomains_always_queries)
qed

text \<open>Evaluations in the example servers.\<close>

lemma smtpDomainOf_foo: "smtpDomainOf ''foo@bar.onmicrosoft.com'' = ''bar.onmicrosoft.com''"
  by (simp add: smtpDomainOf_def substr_def Let_def)

lemma extractSettings_urlSetting:
  "extractSettings (responseTree urlSetting)
     = Inr \<lparr>ownProps = [(''ExternalEwsUrl'', JStr ewsUrl)], prototype = None\<rparr>"
  by (simp add: extractSettings_def responseTree_def userSettingPath_def urlSetting_def
      getProp_def assignProp_def)

lemma attempts_up:
  "Inr ''<s:Envelope/>'' \<in> set (map snd (discoveryAttempts env_up params))
   \<and> (\<forall>w. Inr w \<in> set (map snd (discoveryAttempts env_up params)) \<longrightarrow> w = ''<s:Envelope/>'')"
  by (auto simp: discoveryAttempts_def expandDomains_always_queries promises_def
      domainPromises_def tryEndpoint_def redirectEndpoint_def env_up_def)

lemma winningBody_up: "winningBody env_up params = Inr ''<s:Envelope/>''"
proof -
  from promise_any_fulfilled [OF attempts_up [THEN conjunct1]]
  obtain w where "winningBody env_up params = Inr w"
    and "Inr w \<in> set (map snd (discoveryAttempts env_up params))"
    unfolding winningBody_def by blast
  with attempts_up [THEN conjunct2] show ?thesis
    by simp
qed

lemma xmlToJson_up: "xmlToJson env_up body = Inr (responseTree urlSetting)"
  by (simp add: xmlToJson_def env_up_def)

lemma attempts_fault:
  "discoveryAttempts env_fault params = discoveryAttempts env_up params
   \<and> settleTime env_fault = settleTime env_up"
  by (simp add: discoveryAttempts_def expandDomains_always_queries promises_def
      domainPromises_def tryEndpoint_def redirectEndpoint_def queryDns_def env_fault_def
      env_up_def Let_def)

lemma winningBody_fault: "winningBody env_fault params = Inr ''<s:Envelope/>''"
  using winningBody_up [of params] by (simp add: winningBody_def attempts_fault)

lemma attempts_down:
  "map snd (discoveryAttempts env_down
       (request ''foo@bar.onmicrosoft.com'' (JStr ''pass'') JUndefined JUndefined))
     = [Inl (TransportError ''https://bar.onmicrosoft.com/autodiscover/autodiscover.svc''),
        Inl (TransportError
               ''https://autodiscover.bar.onmicrosoft.com/autodiscover/autodiscover.svc''),
        Inl NotRedirectError]"
  by (simp add: discoveryAttempts_def expandDomains_always_queries queryDns_def
      promises_def domainPromises_def tryEndpoint_def redirectEndpoint_def env_down_def
      request_def smtpDomainOf_foo)

lemma settlementOrder_down: "settlementOrder (settleTime env_down) 3 = [2, 1, 0]"
  by (simp add: env_down_def settlementOrder_def upt_rec)

text \<open>
  C5: when every attempt of a discovery call fails, the call fails with the aggregate
  error that holds the failure of each attempt, once each, in the order in which the
  attempts failed.
\<close>

theorem all_attempts_fail:
  assumes "\<forall>a\<in>set (discoveryAttempts env params). isl (snd a)"
  shows "snd (autodiscover env params) = Inl (AllEndpointsFailedError (settledFailures env params))
    \<and> mset (settledFailures env params) = mset (attemptFailures env params)"
proof -
  let ?rs = "map snd (discoveryAttempts env params)"
  have ne: "?rs \<noteq> []"
    using discoveryAttempts_length [of env params] by auto
  have len: "\<forall>i\<in>set (settlementOrder (settleTime env) (length (discoveryAttempts env params))).
               i < length (discoveryAttempts env params)"
    by (simp add: settlementOrder_def)
  have same: "map (\<lambda>i. projl (?rs ! i))
                (settlementOrder (settleTime env) (length (discoveryAttempts env params)))
              = settledFailures env params"
    using len by (simp add: settledFailures_def attemptFailures_def)
  from assms have "\<forall>r\<in>set ?rs. isl r"
    by simp
  from promise_any_all_rejected [OF ne this, of "settleTime env"]
  have "winningBody env params = Inl (AllEndpointsFailedError (settledFailures env params))"
    by (simp add: winningBody_def same)
  then have failed:
    "snd (autodiscover env params) = Inl (AllEndpointsFailedError (settledFailures env params))"
    by (simp add: autodiscover_outcome)
  have "mset (settledFailures env params) = mset (attemptFailures env params)"
    using settled_mset [of "attemptFailures env params" "settleTime env"]
    by (simp add: settledFailures_def attemptFailures_def)
  with failed show ?thesis
    by (rule conjI)
qed

theorem all_attempts_fail_witness:
  "map snd (discoveryAttempts env_down
       (request ''foo@bar.onmicrosoft.com'' (JStr ''pass'') JUndefined JUndefined))
     = [Inl (TransportError ''https://bar.onmicrosoft.com/autodiscover/autodiscover.svc''),
        Inl (TransportError
               ''https://autodiscover.bar.onmicrosoft.com/autodiscover/autodiscover.svc''),
        Inl NotRedirectError]
   \<and> snd (autodiscover env_down
       (request ''foo@bar.onmicrosoft.com'' (JStr ''pass'') JUndefined JUndefined))
     = Inl (AllEndpointsFailedError
         [NotRedirectError,
          TransportError
            ''https://autodiscover.bar.onmicrosoft.com/autodiscover/autodiscover.svc'',
          TransportError ''https://bar.onmicrosoft.com/autodiscover/autodiscover.svc''])"
proof -
  define p where "p = request ''foo@bar.onmicrosoft.com'' (JStr ''pass'') JUndefined JUndefined"
  note down = attempts_down [folded p_def]
  have "\<forall>r\<in>set (map snd (discoveryAttempts env_down p)). isl r"
    by (simp only: down) simp
  then have h: "\<forall>a\<in>set (discoveryAttempts env_down p). isl (snd a)"
    by simp
  have "length (map snd (discoveryAttempts env_down p)) = 3"
    by (simp only: down) simp
  then have len: "length (discoveryAttempts env_down p) = 3"
    by simp
  have "attemptFailures env_down p = map projl (map snd (discoveryAttempts env_down p))"
    by (simp add: attemptFailures_def)
  then have fs: "attemptFailures env_down p
      = [TransportError ''https://bar.onmicrosoft.com/autodiscover/autodiscover.svc'',
         TransportError
           ''https://autodiscover.bar.onmicrosoft.com/autodiscover/autodiscover.svc'',
         NotRedirectError]"
    by (simp only: down) simp
  have settled: "settledFailures env_down p
      = [NotRedirectError,
         TransportError
           ''https://autodiscover.bar.onmicrosoft.com/autodiscover/autodiscover.svc'',
         TransportError ''https://bar.onmicrosoft.com/autodiscover/autodiscover.svc'']"
    by (simp add: settledFailures_def len settlementOrder_down fs)
  from all_attempts_fail [OF h, THEN conjunct1]
  have "snd (autodiscover env_down p)
      = Inl (AllEndpointsFailedError
         [NotRedirectError,
          TransportError
            ''https://autodiscover.bar.onmicrosoft.com/autodiscover/autodiscover.svc'',
          TransportError ''https://bar.onmicrosoft.com/autodiscover/autodiscover.svc''])"
    by (simp only: settled)
  with down show ?thesis
    unfolding p_def by (rule conjI)
qed

text \<open>
  C6: when the winning body parses and the normalized tree lacks a node of the fixed
  path, the discovery call fails with the error of a malformed response.
\<close>

theorem malformed_response:
  assumes "winningBody env params = Inr body"
    and "xmlToJson env body = Inr tree"
    and "\<not> hasPath tree userSettingPath"
  shows "snd (autodiscover env params) = Inl MalformedResponseError"
proof -
  from assms(3) have "extractSettings tree = Inl MalformedResponseError"
    by (rule extractSettings_absent)
  with assms(1,2) show ?thesis
    by (simp add: autodiscover_outcome)
qed

theorem malformed_response_witness:
  "winningBody env_fault (request ''foo@bar.onmicrosoft.com'' (JStr ''pass'') JUndefined JUndefined)
     = Inr ''<s:Envelope/>''
   \<and> xmlToJson env_fault ''<s:Envelope/>'' = Inr faultTree
   \<and> \<not> hasPath faultTree userSettingPath
   \<and> snd (autodiscover env_fault
       (request ''foo@bar.onmicrosoft.com'' (JStr ''pass'') JUndefined JUndefined))
     = Inl MalformedResponseError"
proof -
  have x: "xmlToJson env_fault ''<s:Envelope/>'' = Inr faultTree"
    by (simp add: xmlToJson_def env_fault_def env_up_def)
  have h: "\<not> hasPath faultTree userSettingPath"
    by (simp add: faultTree_def userSettingPath_def)
  from winningBody_fault x h malformed_response [OF winningBody_fault x h]
  show ?thesis by (intro conjI)
qed

text \<open>
  C7: when the lookup of \<open>_autodiscover._tcp.<domain>\<close> fails, \<open>queryDns\<close> answers the
  empty list, the candidates are the SMTP domain alone, and the call goes on to the
  three attempts on that domain.
\<close>

theorem dns_failure_degrades:
  assumes "dnsResolve env (''_autodiscover._tcp.'' @ smtpDomainOf (p_emailAddress params)) ''SRV''
             = Inl e"
  shows "snd (queryDns env (smtpDomainOf (p_emailAddress params))) = []
    \<and> snd (expandDomains env params) = [smtpDomainOf (p_emailAddress params)]
    \<and> discoveryAttempts env params =
        domainPromises env (smtpDomainOf (p_emailAddress params)) (discoveryUsername params)
          (p_password params) (discoveryBody params)"
proof -
  have q: "snd (queryDns env (smtpDomainOf (p_emailAddress params))) = []"
    using assms by (simp add: queryDns_def)
  then have d: "snd (expandDomains env params) = [smtpDomainOf (p_emailAddress params)]"
    by (simp add: expandDomains_always_queries)
  then have "discoveryAttempts env params =
        domainPromises env (smtpDomainOf (p_emailAddress params)) (discoveryUsername params)
          (p_password params) (discoveryBody params)"
    by (simp add: discoveryAttempts_def promises_def)
  with q d show ?thesis by blast
qed

theorem dns_failure_degrades_witness:
  "dnsResolve env_down ''_autodiscover._tcp.bar.onmicrosoft.com'' ''SRV''
     = Inl (DnsLookupError ''ENOTFOUND'')
   \<and> snd (queryDns env_down ''bar.onmicrosoft.com'') = []
   \<and> snd (expandDomains env_down
       (request ''foo@bar.onmicrosoft.com'' (JStr ''pass'') JUndefined JUndefined))
     = [''bar.onmicrosoft.com'']"
proof -
  let ?p = "request ''foo@bar.onmicrosoft.com'' (JStr ''pass'') JUndefined JUndefined"
  have d: "smtpDomainOf (p_emailAddress ?p) = ''bar.onmicrosoft.com''"
    by (simp add: request_def smtpDomainOf_foo)
  have r: "dnsResolve env_down ''_autodiscover._tcp.bar.onmicrosoft.com'' ''SRV''
             = Inl (DnsLookupError ''ENOTFOUND'')"
    by (simp add: env_down_def)
  have h: "dnsResolve env_down (''_autodiscover._tcp.'' @ smtpDomainOf (p_emailAddress ?p)) ''SRV''
             = Inl (DnsLookupError ''ENOTFOUND'')"
    by (simp add: env_down_def)
  from dns_failure_degrades [OF h] r show ?thesis
    by (simp only: d simp_thms)
qed

text \<open>
  C1 on the code: with \<open>queryDns: false\<close> the lookup is made all the same, and its answer
  is a second candidate.
\<close>

theorem queryDns_false_still_queries:
  "expandDomains env_up
     (request ''foo@bar.onmicrosoft.com'' (JStr ''pass'') (JBool False) JUndefined)
     = ([DnsResolve ''_autodiscover._tcp.bar.onmicrosoft.com'' ''SRV''],
        [''bar.onmicrosoft.com'', ''autodiscover.outlook.com''])"
  by (simp add: expandDomains_def request_def js_or_def queryDns_def env_up_def
      smtpDomainOf_foo Let_def)

text \<open>
  C2 on the code: with \<open>settings: []\<close> the call answers the settings map, an empty array
  being truthy; with the settings left out it answers the URL.
\<close>

theorem empty_settings_return_map:
  "snd (autodiscover env_up
     (request ''foo@bar.onmicrosoft.com'' (JStr ''pass'') JUndefined (JArr [])))
     = Inr (ResultSettings \<lparr>ownProps = [(''ExternalEwsUrl'', JStr ewsUrl)], prototype = None\<rparr>)
   \<and> snd (autodiscover env_up
     (request ''foo@bar.onmicrosoft.com'' (JStr ''pass'') JUndefined JUndefined))
     = Inr (ResultValue (JStr ewsUrl))"
  by (simp add: autodiscover_outcome winningBody_up xmlToJson_up extractSettings_urlSetting
      request_def EWS_URL_SETTING_def readProp_def)







end
